theory Spec2Isabelle
  imports Main "HOL-Library.Char_ord" "HOL-Library.List_Lexorder" "HOL-Library.Product_Lexorder"
    "HOL-Library.AList" "HOL-Library.Multiset"
begin

section \<open>Python strings\<close>

text \<open>
  A Python \<open>str\<close> is a sequence of code points. The model carries the code points
  0..255, one \<^typ>\<open>char\<close> each, and gives the string methods their Python meaning on
  that range: \<open>str.isspace\<close> holds of the ASCII white space, of the separators
  0x1C..0x1F and of 0x85 and 0xA0; the decimal digits (what \<open>int\<close> and the regular
  expression \<open>\d\<close> accept) are \<open>0\<close>..\<open>9\<close>; \<open>str.isdigit\<close> holds in
  addition of the superscripts 0xB2, 0xB3 and 0xB9, which \<open>int\<close> refuses. Strings are
  compared as Python compares them, code point by code point.
\<close>

definition isspace :: "char \<Rightarrow> bool" where
  "isspace c = (let n = (of_char c :: nat) in
     (9 \<le> n \<and> n \<le> 13) \<or> (28 \<le> n \<and> n \<le> 32) \<or> n = 133 \<or> n = 160)"

definition isdecimal :: "char \<Rightarrow> bool" where
  "isdecimal c = (let n = (of_char c :: nat) in 48 \<le> n \<and> n \<le> 57)"

definition isdigit_char :: "char \<Rightarrow> bool" where
  "isdigit_char c = (let n = (of_char c :: nat) in
     isdecimal c \<or> n = 178 \<or> n = 179 \<or> n = 185)"

text \<open>\<open>s.isdigit()\<close>: every character is a digit and there is at least one.\<close>

definition isdigit :: "string \<Rightarrow> bool" where
  "isdigit s = (s \<noteq> [] \<and> list_all isdigit_char s)"

text \<open>\<open>s.strip()\<close>: white space removed at both ends.\<close>

definition strip :: "string \<Rightarrow> string" where
  "strip s = rev (dropWhile isspace (rev (dropWhile isspace s)))"

text \<open>\<open>s.split(sep)\<close> for a one-character separator: never the empty list.\<close>

fun str_split :: "char \<Rightarrow> string \<Rightarrow> string list" where
  "str_split sep [] = [[]]"
| "str_split sep (c # cs) =
     (if c = sep then [] # str_split sep cs
      else (case str_split sep cs of
              [] \<Rightarrow> [[c]]
            | w # ws \<Rightarrow> (c # w) # ws))"

text \<open>\<open>sep.join(xs)\<close>.\<close>

fun str_join :: "string \<Rightarrow> string list \<Rightarrow> string" where
  "str_join sep [] = []"
| "str_join sep [x] = x"
| "str_join sep (x # y # ys) = x @ sep @ str_join sep (y # ys)"

definition digit_val :: "char \<Rightarrow> int" where
  "digit_val c = int (of_char c) - 48"

text \<open>
  \<open>int(s)\<close> in base 10, \<^const>\<open>None\<close> where Python raises \<open>ValueError\<close>: white space
  around the literal is dropped, then comes an optional sign and decimal digits, with
  single underscores allowed between two digits. (The interpreter's cap on the number
  of digits of a literal is not modelled.)
\<close>

fun int_body :: "bool \<Rightarrow> int \<Rightarrow> string \<Rightarrow> int option" where
  "int_body prev acc [] = (if prev then Some acc else None)"
| "int_body prev acc (c # cs) =
     (if isdecimal c then int_body True (10 * acc + digit_val c) cs
      else if c = CHR ''_'' \<and> prev then int_body False acc cs
      else None)"

definition py_int :: "string \<Rightarrow> int option" where
  "py_int s =
     (case strip s of
        [] \<Rightarrow> None
      | c # cs \<Rightarrow>
          if c = CHR ''-'' then map_option uminus (int_body False 0 cs)
          else if c = CHR ''+'' then int_body False 0 cs
          else int_body False 0 (c # cs))"

text \<open>\<open>str(n)\<close> for an integer.\<close>

definition digit_char :: "nat \<Rightarrow> char" where
  "digit_char d = ''0123456789'' ! d"

fun str_nat :: "nat \<Rightarrow> string" where
  "str_nat n =
     (if n < 10 then [digit_char n]
      else str_nat (n div 10) @ [digit_char (n mod 10)])"

definition str_int :: "int \<Rightarrow> string" where
  "str_int i = (if i < 0 then CHR ''-'' # str_nat (nat (- i)) else str_nat (nat i))"

section \<open>The filename parser\<close>

text \<open>
  \<open>os.path.basename\<close> and \<open>os.path.splitext\<close> as \<open>posixpath\<close> has them: the base
  name is what follows the last slash; the extension starts at the last dot of the base
  name, unless only dots precede it.
\<close>

definition basename :: "string \<Rightarrow> string" where
  "basename p = rev (takeWhile (\<lambda>c. c \<noteq> CHR ''/'') (rev p))"

definition splitext_root :: "string \<Rightarrow> string" where
  "splitext_root b =
     (case dropWhile (\<lambda>c. c \<noteq> CHR ''.'') (rev b) of
        [] \<Rightarrow> b
      | dot # root_rev \<Rightarrow>
          if list_ex (\<lambda>c. c \<noteq> CHR ''.'') root_rev then rev root_rev else b)"

text \<open>
  \<open>re.search(r"(\d{8,})", base)\<close>: the leftmost position at which eight decimal digits
  follow; the greedy match takes every digit from there.
\<close>

fun re_search_digits8 :: "string \<Rightarrow> string option" where
  "re_search_digits8 [] = None"
| "re_search_digits8 (c # cs) =
     (let run = takeWhile isdecimal (c # cs)
      in if 8 \<le> length run then Some run else re_search_digits8 cs)"

record meta =
  class_time :: string
  name :: string
  student_id :: string

definition parse_filename_meta :: "string \<Rightarrow> meta" where
  "parse_filename_meta filepath =
     (let base = splitext_root (basename filepath);
          parts = str_split (CHR ''-'') base;
          n = length parts
      in if 3 \<le> n then
           \<lparr> class_time = strip (str_join ''-'' (take (n - 2) parts)),
             name = strip (parts ! (n - 2)),
             student_id = strip (parts ! (n - 1)) \<rparr>
         else
           \<lparr> class_time = strip base,
             name = [],
             student_id = (case re_search_digits8 base of Some d \<Rightarrow> d | None \<Rightarrow> []) \<rparr>)"

text \<open>
  The words of the specification for the fallback: the maximal runs of consecutive
  decimal digits of a string, in order, and the first of them that is eight or more
  digits long.
\<close>

function digit_runs :: "string \<Rightarrow> string list" where
  "digit_runs [] = []"
| "digit_runs (c # cs) =
     (if isdecimal c then takeWhile isdecimal (c # cs) # digit_runs (dropWhile isdecimal cs)
      else digit_runs cs)"
  by pat_completeness auto
termination
  by (relation "measure length") (auto simp: less_Suc_eq_le length_dropWhile_le)

definition first_digit_run8 :: "string \<Rightarrow> string option" where
  "first_digit_run8 s = find (\<lambda>r. 8 \<le> length r) (digit_runs s)"

section \<open>The table of grades\<close>

text \<open>
  A table cell holds a Python value: a \<open>str\<close>, an \<open>int\<close>, or the missing value
  \<open>nan\<close> that pandas puts where a row has nothing for a column. (Floating point
  numbers other than \<open>nan\<close> are not modelled.) A \<open>DataFrame\<close> is its list of column
  labels and its rows in index order, each row pairing the column labels with its cells;
  the index is the row position, as \<open>read_csv\<close> and \<open>concat(ignore_index=True)\<close> make it.
\<close>

datatype py_error = KeyError | ValueError

datatype cell = Str string | Num int | NaN

type_synonym row = "(string \<times> cell) list"

record dataframe =
  columns :: "string list"
  rows :: "row list"

definition cell_at :: "row \<Rightarrow> string \<Rightarrow> cell" where
  "cell_at r k = (case map_of r k of Some v \<Rightarrow> v | None \<Rightarrow> NaN)"

text \<open>\<open>str(v)\<close> of a cell value, which is also what \<open>astype(str)\<close> makes of it.\<close>

fun str_cell :: "cell \<Rightarrow> string" where
  "str_cell (Str s) = s"
| "str_cell (Num i) = str_int i"
| "str_cell NaN = ''nan''"

definition cols :: "string list" where
  "cols = [''class_time'', ''name'', ''student_id'', ''q1_score'', ''q2_score'',
           ''total_score'', ''comment'', ''file'']"

text \<open>\<open>df[c] = v\<close> for a new column label \<open>c\<close> and a scalar \<open>v\<close>.\<close>

definition add_column :: "string \<Rightarrow> cell \<Rightarrow> dataframe \<Rightarrow> dataframe" where
  "add_column c v df =
     \<lparr> columns = columns df @ [c], rows = map (\<lambda>r. r @ [(c, v)]) (rows df) \<rparr>"

text \<open>The loop \<open>for c in cols: if c not in df.columns: df[c] = ""\<close>.\<close>

definition ensure_columns :: "dataframe \<Rightarrow> dataframe" where
  "ensure_columns df =
     fold (\<lambda>c d. if c \<in> set (columns d) then d else add_column c (Str []) d) cols df"

text \<open>
  \<open>_load_existing_csv\<close>: the argument is what \<open>read_csv\<close> made of the file,
  \<^const>\<open>None\<close> when the file is absent or unreadable.
\<close>

definition load_existing_csv :: "dataframe option \<Rightarrow> dataframe" where
  "load_existing_csv parsed =
     (case parsed of
        Some df \<Rightarrow> ensure_columns df
      | None \<Rightarrow> \<lparr> columns = cols, rows = [] \<rparr>)"

text \<open>
  The dictionary \<open>record\<close> that \<open>save_current\<close> builds: the three fields of the file
  name, then the scores (\<^const>\<open>None\<close> where the entry gave no number), the total, the
  comment and the file name. \<open>items\<close> lists its entries in order, a score that is
  \<^const>\<open>None\<close> as the empty string.
\<close>

record grade_record = meta +
  q1_score :: "int option"
  q2_score :: "int option"
  total_score :: int
  comment :: string
  file' :: string

definition score_cell :: "int option \<Rightarrow> cell" where
  "score_cell q = (case q of None \<Rightarrow> Str [] | Some v \<Rightarrow> Num v)"

definition items :: "grade_record \<Rightarrow> row" where
  "items rec =
     [(''class_time'', Str (class_time rec)),
      (''name'', Str (name rec)),
      (''student_id'', Str (student_id rec)),
      (''q1_score'', score_cell (q1_score rec)),
      (''q2_score'', score_cell (q2_score rec)),
      (''total_score'', Num (total_score rec)),
      (''comment'', Str (comment rec)),
      (''file'', Str (file' rec))]"

text \<open>\<open>df[mask].index[-1]\<close>: the last index at which the mask \<open>m\<close> holds, if \<open>m.any()\<close>.\<close>

definition last_match :: "bool list \<Rightarrow> nat option" where
  "last_match m =
     (case filter (\<lambda>i. m ! i) [0..<length m] of
        [] \<Rightarrow> None
      | i # js \<Rightarrow> Some (last (i # js)))"

text \<open>
  \<open>df.at[i, k] = v\<close>: the cell is overwritten; a label that is no column yet becomes
  one, with \<open>nan\<close> in the other rows.
\<close>

definition set_at :: "dataframe \<Rightarrow> nat \<Rightarrow> string \<Rightarrow> cell \<Rightarrow> dataframe" where
  "set_at df i k v =
     (let d = (if k \<in> set (columns df) then df else add_column k NaN df)
      in d \<lparr> rows := (rows d)[i := AList.update k v (rows d ! i)] \<rparr>)"

text \<open>
  \<open>pd.concat([df, pd.DataFrame([record])], ignore_index=True)\<close>: one row more, with
  \<open>nan\<close> where either side has no value for a column of the other.
\<close>

definition concat_row :: "dataframe \<Rightarrow> row \<Rightarrow> dataframe" where
  "concat_row df rec_items =
     (let new_cols = filter (\<lambda>k. k \<notin> set (columns df)) (map fst rec_items);
          all_cols = columns df @ new_cols
      in \<lparr> columns = all_cols,
           rows = map (\<lambda>r. r @ map (\<lambda>k. (k, NaN)) new_cols) (rows df)
                  @ [map (\<lambda>c. (c, cell_at rec_items c)) all_cols] \<rparr>)"

text \<open>
  The update of \<open>self.df\<close> in \<open>save_current\<close> (the upsert of the record store):
  \<open>self.df["student_id"]\<close> raises \<open>KeyError\<close> on a table without that column.
\<close>

definition sid_strs :: "dataframe \<Rightarrow> string list" where
  "sid_strs df = map (\<lambda>r. str_cell (cell_at r ''student_id'')) (rows df)"

definition upsert :: "dataframe \<Rightarrow> grade_record \<Rightarrow> py_error + dataframe" where
  "upsert df rec =
     (let sid = student_id rec in
      if sid \<noteq> [] then
        if ''student_id'' \<notin> set (columns df) then Inl KeyError
        else
          let m = map (\<lambda>x. x = sid) (sid_strs df) in
          case last_match m of
            Some last_idx \<Rightarrow> Inr (fold (\<lambda>(k, v) d. set_at d last_idx k v) (items rec) df)
          | None \<Rightarrow> Inr (concat_row df (items rec))
      else Inr (concat_row df (items rec)))"

text \<open>
  For the statements below: a table that has the eight columns, as every table of the
  record store has; the index of the row that \<open>upsert\<close> writes for a student number,
  which is the last row that reads as that number, or else a new row at the end; saving
  a list of records one after the other; and the condition that no two rows of a table
  read as the same student number, rows that read as the empty string apart.
\<close>

definition has_cols :: "dataframe \<Rightarrow> bool" where
  "has_cols df = list_all (\<lambda>c. c \<in> set (columns df)) cols"

definition upsert_index :: "dataframe \<Rightarrow> string \<Rightarrow> nat" where
  "upsert_index df sid =
     (if sid = [] then length (rows df)
      else (case last_match (map (\<lambda>x. x = sid) (sid_strs df)) of
              Some i \<Rightarrow> i
            | None \<Rightarrow> length (rows df)))"



text \<open>
  A row after the cells of a record have been written over its own, one \<open>df.at\<close>
  assignment after the other; and the row that \<open>concat\<close> makes of a record for a table
  with given columns.
\<close>

definition write_row :: "row \<Rightarrow> row \<Rightarrow> row" where
  "write_row rec_items r = fold (\<lambda>(k, v). AList.update k v) rec_items r"

definition new_row :: "dataframe \<Rightarrow> row \<Rightarrow> row" where
  "new_row df rec_items = map (\<lambda>c. (c, cell_at rec_items c)) (columns df)"

section \<open>The gradebook exporter\<close>

text \<open>
  A sheet of the workbook: its section, its header row, and its data rows, each the
  eight cell values with the fill of each cell. The sheet of the rows without a section
  is named by a literal of three characters beyond those of the model, so no
  \<open>class_time\<close> of the model equals it: the label is a constructor of its own, and it
  sorts after the other sections, as its first code point is above theirs. (The title
  given to the sheet, cut to 31 characters and made unique, is not modelled, nor are the
  checks of the spreadsheet library on what it is given.)
\<close>

datatype fill = NoFill | FILL_MISSING | FILL_ALERT

datatype section_label = Section string | Ungrouped

record sheet =
  section_of :: section_label
  header :: "string list"
  data_rows :: "(cell list \<times> fill list) list"

definition label_key :: "section_label \<Rightarrow> bool \<times> string" where
  "label_key l = (case l of Section ct \<Rightarrow> (False, ct) | Ungrouped \<Rightarrow> (True, []))"

text \<open>
  \<open>sorted(set([ct if ct.strip() else LABEL for ct in df2["class_time_str"]]))\<close>, where
  \<open>class_time_str\<close> is the \<open>class_time\<close> column after \<open>astype(str)\<close>.
\<close>

definition class_times :: "dataframe \<Rightarrow> section_label list" where
  "class_times df2 =
     sort_key label_key
       (remdups (map (\<lambda>r. let ct = str_cell (cell_at r ''class_time'')
                            in if strip ct \<noteq> [] then Section ct else Ungrouped)
                     (rows df2)))"

text \<open>The rows of \<open>df2\<close> selected for a section.\<close>

definition section_rows :: "dataframe \<Rightarrow> section_label \<Rightarrow> row list" where
  "section_rows df2 ct =
     filter (\<lambda>r. strip (str_cell (cell_at r ''class_time'')) =
                  (case ct of Section c \<Rightarrow> c | Ungrouped \<Rightarrow> []))
            (rows df2)"

text \<open>
  \<open>sort_key_sid\<close>: \<open>int(s)\<close> raises \<open>ValueError\<close> on a string of digits that are not
  all decimal.
\<close>

definition sort_key_sid :: "cell \<Rightarrow> py_error + int" where
  "sort_key_sid v =
     (let s = strip (str_cell v)
      in if isdigit s then (case py_int s of Some n \<Rightarrow> Inr n | None \<Rightarrow> Inl ValueError)
         else Inr (10 ^ 18))"

text \<open>A list of results is the list of their values, or the first error among them.\<close>

fun collect :: "('e + 'a) list \<Rightarrow> 'e + 'a list" where
  "collect [] = Inr []"
| "collect (Inl e # xs) = Inl e"
| "collect (Inr x # xs) = (case collect xs of Inl e \<Rightarrow> Inl e | Inr ys \<Rightarrow> Inr (x # ys))"

text \<open>
  The order of \<open>sort_values\<close> on the values of a column: numbers before strings,
  numbers by value and strings by code points, and missing values last.
\<close>

fun cell_key :: "cell \<Rightarrow> nat \<times> int \<times> string" where
  "cell_key (Num i) = (0, i, [])"
| "cell_key (Str s) = (1, 0, s)"
| "cell_key NaN = (2, 0, [])"

text \<open>
  \<open>sub.sort_values(["__sid_sort", "student_id", "name"], ascending=True)\<close>, a stable
  sort, after the column \<open>__sid_sort\<close> has been computed.
\<close>

definition sort_rows :: "row list \<Rightarrow> py_error + row list" where
  "sort_rows sub =
     (case collect (map (\<lambda>r. sort_key_sid (cell_at r ''student_id'')) sub) of
        Inl e \<Rightarrow> Inl e
      | Inr sid_sort \<Rightarrow>
          Inr (map snd
                 (sort_key (\<lambda>(k, r). (k, cell_key (cell_at r ''student_id''),
                                          cell_key (cell_at r ''name'')))
                           (zip sid_sort sub))))"

text \<open>
  \<open>str(cell.value or "").strip()\<close>: the empty string and the number 0 are false in
  Python, \<open>nan\<close> is not.
\<close>

fun cell_text :: "cell \<Rightarrow> string" where
  "cell_text (Str s) = strip s"
| "cell_text (Num i) = (if i = 0 then [] else strip (str_int i))"
| "cell_text NaN = strip ''nan''"

text \<open>The fills of the cells of one data row, in the order the code sets them.\<close>

definition row_fills :: "cell list \<Rightarrow> fill list" where
  "row_fills vals =
     (let name_t = cell_text (vals ! 1);
          sid = cell_text (vals ! 2);
          q1 = cell_text (vals ! 3);
          q2 = cell_text (vals ! 4);
          f0 = (if name_t = [] \<or> sid = [] then map (\<lambda>c. FILL_ALERT) vals
                else map (\<lambda>c. NoFill) vals);
          f1 = (if q1 = [] then f0[3 := FILL_MISSING] else f0);
          f2 = (if q2 = [] then f1[4 := FILL_MISSING] else f1)
      in f2)"

definition export_cols :: "string list" where
  "export_cols = [''class_time'', ''name'', ''student_id'', ''q1_score'', ''q2_score'',
                  ''total_score'', ''comment'', ''file'']"

definition make_sheet :: "dataframe \<Rightarrow> section_label \<Rightarrow> py_error + sheet" where
  "make_sheet df2 ct =
     (case sort_rows (section_rows df2 ct) of
        Inl e \<Rightarrow> Inl e
      | Inr sub \<Rightarrow>
          Inr \<lparr> section_of = ct,
                header = export_cols,
                data_rows = map (\<lambda>r. let vals = map (cell_at r) export_cols
                                       in (vals, row_fills vals)) sub \<rparr>)"

text \<open>
  \<open>export_gradebook\<close>: the caller's table as the call leaves it, and the workbook
  saved, or the exception that ended the call before anything was saved.
\<close>

definition export_gradebook :: "dataframe \<Rightarrow> dataframe \<times> (py_error + sheet list)" where
  "export_gradebook df =
     (let df1 = ensure_columns df;
          df2 = df1
      in (df1, collect (map (make_sheet df2) (class_times df2))))"







section \<open>The application state\<close>

text \<open>
  The fields of \<open>PDFGraderApp\<close> that the scoring and saving code reads or writes: the
  table \<open>self.df\<close>, the files found, the index of the current one, the text variables
  and entry widgets, and the quick-entry stage and buffer. \<open>csv_writes\<close> lists the
  tables that \<open>to_csv\<close> wrote to the CSV file, \<open>dialogs\<close> the message boxes shown, and
  \<open>focus_in_comment\<close> is what \<open>_focus_in_comment()\<close> answers. The total shown in the
  window (\<open>var_total\<close>) and the status line are written and never read, and the open
  document and its rendering are outside the model; they are left out.
\<close>

datatype dialog = showwarning | showinfo | showerror

record app =
  df :: dataframe
  csv_writes :: "dataframe list"
  pdf_paths :: "string list"
  idx :: int
  var_class_time :: string
  var_name :: string
  var_student_id :: string
  var_file :: string
  entry_q1 :: string
  entry_q2 :: string
  text_comment :: string
  quick_stage :: int
  quick_buffer :: string
  focus_in_comment :: bool
  dialogs :: "dialog list"

definition clamp_int :: "string \<Rightarrow> int \<Rightarrow> int \<Rightarrow> int option \<Rightarrow> int option" where
  "clamp_int s lo hi dflt =
     (case py_int (strip s) of
        Some v \<Rightarrow> if v < lo then Some lo else if v > hi then Some hi else Some v
      | None \<Rightarrow> dflt)"

definition or_zero :: "int option \<Rightarrow> int" where
  "or_zero q = (case q of Some v \<Rightarrow> v | None \<Rightarrow> 0)"

definition compute_total :: "app \<Rightarrow> int option \<times> int option \<times> int" where
  "compute_total s =
     (let q1 = clamp_int (entry_q1 s) 0 50 None;
          q2 = clamp_int (entry_q2 s) 0 50 None;
          tot = or_zero q1 + or_zero q2
      in (q1, q2, tot))"

text \<open>
  \<open>save_current\<close>. The text widget hands out its content with a newline after it. A
  failure of \<open>to_csv\<close> to write the file is not modelled.
\<close>

definition save_current :: "app \<Rightarrow> py_error + (bool \<times> app)" where
  "save_current s =
     (let (q1, q2, tot) = compute_total s in
        if q1 = None \<and> q2 = None then
          Inr (False, s \<lparr> dialogs := dialogs s @ [showwarning] \<rparr>)
        else
          let rec = \<lparr> class_time = var_class_time s,
                      name = var_name s,
                      student_id = strip (var_student_id s),
                      q1_score = q1,
                      q2_score = q2,
                      total_score = tot,
                      comment = strip (text_comment s @ [CHR 0x0A]),
                      file' = var_file s \<rparr>
          in case upsert (df s) rec of
               Inl e \<Rightarrow> Inl e
             | Inr d \<Rightarrow> Inr (True, s \<lparr> df := d, csv_writes := csv_writes s @ [d] \<rparr>))"

definition reset_quick :: "app \<Rightarrow> int \<Rightarrow> app" where
  "reset_quick s stage = s \<lparr> quick_stage := stage, quick_buffer := [] \<rparr>"

text \<open>
  \<open>_populate_existing\<close>: the entries are cleared, then filled from the last row of the
  table whose \<open>student_id\<close> reads as the given one.
\<close>

definition field_text :: "row \<Rightarrow> string \<Rightarrow> string" where
  "field_text r k =
     (case map_of r k of
        None \<Rightarrow> []
      | Some NaN \<Rightarrow> []
      | Some v \<Rightarrow> str_cell v)"

definition populate_existing :: "app \<Rightarrow> string \<Rightarrow> py_error + app" where
  "populate_existing s sid0 =
     (let s1 = s \<lparr> entry_q1 := [], entry_q2 := [], text_comment := [] \<rparr>;
          sid = strip sid0
      in if sid = [] then Inr s1
         else if ''student_id'' \<notin> set (columns (df s)) then Inl KeyError
         else
           case rev (filter (\<lambda>r. str_cell (cell_at r ''student_id'') = sid) (rows (df s))) of
             [] \<Rightarrow> Inr s1
           | r # earlier \<Rightarrow>
               Inr (s1 \<lparr> entry_q1 := strip (field_text r ''q1_score''),
                         entry_q2 := strip (field_text r ''q2_score''),
                         text_comment := field_text r ''comment'' \<rparr>))"

text \<open>\<open>_load_pdf\<close>, without the opening and rendering of the document.\<close>

definition load_pdf :: "app \<Rightarrow> int \<Rightarrow> py_error + app" where
  "load_pdf s i =
     (if pdf_paths s = [] then Inr s
      else
        let j = max 0 (min i (int (length (pdf_paths s)) - 1));
            path = pdf_paths s ! nat j;
            m = parse_filename_meta path;
            s1 = s \<lparr> idx := j,
                      var_class_time := class_time m,
                      var_name := name m,
                      var_student_id := student_id m,
                      var_file := basename path \<rparr>
        in case populate_existing s1 (student_id m) of
             Inl e \<Rightarrow> Inl e
           | Inr s2 \<Rightarrow> Inr (reset_quick s2 1))"

definition save_and_next :: "app \<Rightarrow> py_error + app" where
  "save_and_next s =
     (case save_current s of
        Inl e \<Rightarrow> Inl e
      | Inr (ok, s1) \<Rightarrow>
          if \<not> ok then Inr s1
          else if idx s1 < int (length (pdf_paths s1)) - 1 then load_pdf s1 (idx s1 + 1)
          else Inr (s1 \<lparr> dialogs := dialogs s1 @ [showinfo] \<rparr>))"

section \<open>The quick-entry state machine\<close>

definition clamp_0_50 :: "int \<Rightarrow> int" where
  "clamp_0_50 v = max 0 (min 50 v)"

definition preview_quick_value :: "app \<Rightarrow> int \<Rightarrow> app" where
  "preview_quick_value s stage =
     (if stage \<noteq> 1 \<and> stage \<noteq> 2 then s
      else if strip (quick_buffer s) = [] then
        (if stage = 1 then s \<lparr> entry_q1 := [] \<rparr> else s \<lparr> entry_q2 := [] \<rparr>)
      else
        let preview_val = clamp_0_50 (case py_int (quick_buffer s) of Some v \<Rightarrow> v | None \<Rightarrow> 0)
        in if stage = 1 then s \<lparr> entry_q1 := str_int preview_val \<rparr>
           else s \<lparr> entry_q2 := str_int preview_val \<rparr>)"

definition commit_quick_buffer :: "app \<Rightarrow> app" where
  "commit_quick_buffer s =
     (if quick_stage s \<noteq> 1 \<and> quick_stage s \<noteq> 2 then s
      else
        let val = clamp_0_50
              (if strip (quick_buffer s) = [] then 0
               else (case py_int (quick_buffer s) of Some v \<Rightarrow> v | None \<Rightarrow> 0))
        in if quick_stage s = 1 then s \<lparr> entry_q1 := str_int val \<rparr>
           else s \<lparr> entry_q2 := str_int val \<rparr>)"

text \<open>\<open>_on_keypress\<close>; \<open>ch\<close> is \<open>event.char\<close>.\<close>

definition on_keypress :: "app \<Rightarrow> string \<Rightarrow> app" where
  "on_keypress s ch =
     (if focus_in_comment s then s
      else if quick_stage s \<noteq> 1 \<and> quick_stage s \<noteq> 2 then s
      else if ch = [] \<or> \<not> isdigit ch then s
      else
        let buf = (if 2 \<le> length (quick_buffer s) then ch else quick_buffer s @ ch)
        in preview_quick_value (s \<lparr> quick_buffer := buf \<rparr>) (quick_stage s))"

definition on_backspace :: "app \<Rightarrow> app" where
  "on_backspace s =
     (if focus_in_comment s then s
      else if quick_stage s \<noteq> 1 \<and> quick_stage s \<noteq> 2 then s
      else preview_quick_value (s \<lparr> quick_buffer := butlast (quick_buffer s) \<rparr>) (quick_stage s))"

definition on_enter :: "app \<Rightarrow> py_error + app" where
  "on_enter s =
     (if focus_in_comment s then Inr s
      else if quick_stage s = 1 then
        Inr ((commit_quick_buffer s) \<lparr> quick_stage := 2, quick_buffer := [] \<rparr>)
      else if quick_stage s = 2 then
        Inr ((commit_quick_buffer s) \<lparr> quick_stage := 3, quick_buffer := [] \<rparr>)
      else
        case save_and_next s of
          Inl e \<Rightarrow> Inl e
        | Inr s1 \<Rightarrow> Inr (reset_quick s1 1))"

definition on_escape :: "app \<Rightarrow> app" where
  "on_escape s = (if focus_in_comment s then s else reset_quick s 1)"

text \<open>
  The events the window delivers to these handlers, and one handler call per event; the
  focus moves to and from the comment box by the user's hand. A run is a sequence of
  events, cut short by an exception.
\<close>

datatype event = KeyPress string | Return | BackSpace | Escape | Focus bool

fun step :: "app \<Rightarrow> event \<Rightarrow> py_error + app" where
  "step s (KeyPress ch) = Inr (on_keypress s ch)"
| "step s Return = on_enter s"
| "step s BackSpace = Inr (on_backspace s)"
| "step s Escape = Inr (on_escape s)"
| "step s (Focus b) = Inr (s \<lparr> focus_in_comment := b \<rparr>)"

fun run :: "app \<Rightarrow> event list \<Rightarrow> py_error + app" where
  "run s [] = Inr s"
| "run s (e # es) = (case step s e of Inl err \<Rightarrow> Inl err | Inr s1 \<Rightarrow> run s1 es)"

text \<open>
  For the statements below: a buffer of at most two digit characters; and a state to
  try the handlers on, with an empty table and two files to grade, the first one loaded,
  a record as \<open>save_current\<close> builds it there, and the row of such a record.
\<close>

definition good_buffer :: "app \<Rightarrow> bool" where
  "good_buffer s = (length (quick_buffer s) \<le> 2 \<and> list_all isdigit_char (quick_buffer s))"

definition ex_state :: app where
  "ex_state =
     \<lparr> df = \<lparr> columns = cols, rows = [] \<rparr>, csv_writes = [],
       pdf_paths = [''d/A-Li-12.pdf'', ''d/A-Wu-13.pdf''], idx = 0,
       var_class_time = ''A'', var_name = ''Li'', var_student_id = ''12'',
       var_file = ''A-Li-12.pdf'', entry_q1 = [], entry_q2 = [], text_comment = [],
       quick_stage = 1, quick_buffer = [], focus_in_comment = False, dialogs = [] \<rparr>"

definition ex_record :: grade_record where
  "ex_record =
     \<lparr> class_time = ''A'', name = ''Li'', student_id = ''12'', q1_score = Some 30,
       q2_score = None, total_score = 30, comment = [], file' = ''A-Li-12.pdf'' \<rparr>"

definition ex_row :: "cell \<Rightarrow> cell \<Rightarrow> int \<Rightarrow> row" where
  "ex_row q1 q2 tot =
     [(''class_time'', Str ''A''), (''name'', Str ''Li''), (''student_id'', Str ''12''),
      (''q1_score'', q1), (''q2_score'', q2), (''total_score'', Num tot),
      (''comment'', Str []), (''file'', Str ''A-Li-12.pdf'')]"

text \<open>
  A record without a name and without a second score, as \<open>save_current\<close> builds it for
  the file \<open>A--12.pdf\<close>; the table of the session that saved it into an empty store; and
  the table that \<open>read_csv\<close> returns for the CSV file written from that one, where an empty
  field reads as \<open>nan\<close> and a field of digits as a number.
\<close>

definition ex_saved_record :: grade_record where
  "ex_saved_record =
     \<lparr> class_time = ''A'', name = [], student_id = ''12'', q1_score = Some 40,
       q2_score = None, total_score = 40, comment = [], file' = ''A--12.pdf'' \<rparr>"

definition ex_saved_table :: dataframe where
  "ex_saved_table =
     \<lparr> columns = cols,
       rows = [[(''class_time'', Str ''A''), (''name'', Str []), (''student_id'', Str ''12''),
                (''q1_score'', Num 40), (''q2_score'', Str []), (''total_score'', Num 40),
                (''comment'', Str []), (''file'', Str ''A--12.pdf'')]] \<rparr>"

definition ex_reloaded_table :: dataframe where
  "ex_reloaded_table =
     \<lparr> columns = cols,
       rows = [[(''class_time'', Str ''A''), (''name'', NaN), (''student_id'', Num 12),
                (''q1_score'', Num 40), (''q2_score'', NaN), (''total_score'', Num 40),
                (''comment'', NaN), (''file'', Str ''A--12.pdf'')]] \<rparr>"

section \<open>Properties of the filename parser\<close>

lemma str_split_not_Nil: "str_split sep s \<noteq> []"
  by (induction s) (auto split: list.splits)

lemma str_join_split: "str_join [sep] (str_split sep s) = s"
proof (induction s)
  case Nil
  show ?case by simp
next
  case (Cons c cs)
  obtain w ws where sp: "str_split sep cs = w # ws"
    using str_split_not_Nil [of sep cs] by (cases "str_split sep cs") auto
  show ?case
  proof (cases "c = sep")
    case True
    with Cons sp show ?thesis by simp
  next
    case False
    with Cons sp show ?thesis by (cases ws) auto
  qed
qed

lemma str_split_no_sep: "p \<in> set (str_split sep s) \<Longrightarrow> sep \<notin> set p"
  by (induction s arbitrary: p) (auto split: list.splits if_splits)

lemma re_search_skip_short_run:
  "length (takeWhile isdecimal s) < 8 \<Longrightarrow>
   re_search_digits8 s = re_search_digits8 (dropWhile isdecimal s)"
proof (induction s)
  case Nil
  show ?case by simp
next
  case (Cons c cs)
  show ?case
  proof (cases "isdecimal c")
    case True
    with Cons.prems have "length (takeWhile isdecimal cs) < 8" by simp
    with Cons.IH have "re_search_digits8 cs = re_search_digits8 (dropWhile isdecimal cs)" .
    with True Cons.prems show ?thesis by (simp add: Let_def)
  next
    case False
    then show ?thesis by simp
  qed
qed

lemma re_search_is_first_run: "re_search_digits8 s = first_digit_run8 s"
proof (induction s rule: digit_runs.induct)
  case 1
  show ?case by (simp add: first_digit_run8_def)
next
  case (2 c cs)
  show ?case
  proof (cases "isdecimal c")
    case dec: True
    show ?thesis
    proof (cases "8 \<le> length (takeWhile isdecimal (c # cs))")
      case True
      with dec show ?thesis by (simp add: first_digit_run8_def Let_def)
    next
      case False
      with dec have short: "length (takeWhile isdecimal cs) < 8" by simp
      have "re_search_digits8 (c # cs) = re_search_digits8 cs"
        using False by (simp add: Let_def)
      also have "\<dots> = re_search_digits8 (dropWhile isdecimal cs)"
        using short by (rule re_search_skip_short_run)
      also have "\<dots> = first_digit_run8 (dropWhile isdecimal cs)"
        using 2 dec by simp
      also have "\<dots> = first_digit_run8 (c # cs)"
        using dec False by (simp add: first_digit_run8_def)
      finally show ?thesis .
    qed
  next
    case False
    with 2 show ?thesis by (simp add: first_digit_run8_def Let_def)
  qed
qed

text \<open>
  Claim C6, with the class time of the fallback as the code computes it. The segments
  of the stem (the file name without directory and extension) are its pieces between
  hyphens. With three segments or more, \<open>student_id\<close> is the last segment, \<open>name\<close>
  the one before it and \<open>class_time\<close> the segments before those joined by hyphens
  again, each with the white space around it removed. With fewer, \<open>class_time\<close> is the
  whole stem with the white space around it removed, \<open>name\<close> is empty, and
  \<open>student_id\<close> is the first run of eight or more consecutive digits of the stem, or
  empty when there is none.
\<close>

theorem parse_filename_meta_segments:
  "let base = splitext_root (basename filepath);
       parts = str_split (CHR ''-'') base;
       m = parse_filename_meta filepath
   in str_join ''-'' parts = base \<and> (\<forall>p \<in> set parts. CHR ''-'' \<notin> set p) \<and>
      (3 \<le> length parts \<longrightarrow>
         student_id m = strip (last parts) \<and>
         name m = strip (last (butlast parts)) \<and>
         class_time m = strip (str_join ''-'' (butlast (butlast parts)))) \<and>
      (length parts < 3 \<longrightarrow>
         class_time m = strip base \<and>
         name m = [] \<and>
         student_id m = (case first_digit_run8 base of Some d \<Rightarrow> d | None \<Rightarrow> []))"
proof -
  define base where "base = splitext_root (basename filepath)"
  define parts where "parts = str_split (CHR ''-'') base"
  have joined: "str_join ''-'' parts = base"
    unfolding parts_def by (rule str_join_split)
  have nosep: "\<forall>p \<in> set parts. CHR ''-'' \<notin> set p"
    unfolding parts_def by (auto dest: str_split_no_sep)
  have long: "student_id (parse_filename_meta filepath) = strip (last parts) \<and>
      name (parse_filename_meta filepath) = strip (last (butlast parts)) \<and>
      class_time (parse_filename_meta filepath) = strip (str_join ''-'' (butlast (butlast parts)))"
    if "3 \<le> length parts"
  proof -
    have ne: "parts \<noteq> []" "butlast parts \<noteq> []"
    proof -
      from that show "parts \<noteq> []" by auto
      show "butlast parts \<noteq> []"
      proof
        assume "butlast parts = []"
        then have "length (butlast parts) = 0" by simp
        with that show False by simp
      qed
    qed
    have l1: "parts ! (length parts - 1) = last parts"
      using ne by (simp add: last_conv_nth)
    have "last (butlast parts) = butlast parts ! (length (butlast parts) - 1)"
      using ne(2) by (rule last_conv_nth)
    also have "\<dots> = parts ! (length parts - 2)"
      using that by (simp add: nth_butlast numeral_2_eq_2)
    finally have l2: "parts ! (length parts - 2) = last (butlast parts)" by simp
    have l3: "take (length parts - 2) parts = butlast (butlast parts)"
      by (simp add: butlast_conv_take numeral_2_eq_2)
    show ?thesis
      using that l1 l2 l3
      by (simp add: parse_filename_meta_def Let_def base_def [symmetric] parts_def [symmetric])
  qed
  have short: "class_time (parse_filename_meta filepath) = strip base \<and>
      name (parse_filename_meta filepath) = [] \<and>
      student_id (parse_filename_meta filepath) =
        (case first_digit_run8 base of Some d \<Rightarrow> d | None \<Rightarrow> [])"
    if "length parts < 3"
    using that
    by (simp add: parse_filename_meta_def Let_def base_def [symmetric] parts_def [symmetric]
        re_search_is_first_run)
  show ?thesis
    using joined nosep long short
    by (simp add: Let_def base_def [symmetric] parts_def [symmetric])
qed

text \<open>The two file names of the specification's examples, the first with ASCII names.\<close>

theorem parse_filename_meta_segments_witness:
  "parse_filename_meta ''submissions/AM1-2(830-1000)-Cai-2023151554.pdf'' =
     \<lparr> class_time = ''AM1-2(830-1000)'', name = ''Cai'', student_id = ''2023151554'' \<rparr> \<and>
   parse_filename_meta ''hw_20231554.pdf'' =
     \<lparr> class_time = ''hw_20231554'', name = [], student_id = ''20231554'' \<rparr>"
  using parse_filename_meta_segments [of "''submissions/AM1-2(830-1000)-Cai-2023151554.pdf''"]
    parse_filename_meta_segments [of "''hw_20231554.pdf''"]
  by (simp add: basename_def splitext_root_def strip_def isspace_def Let_def
      first_digit_run8_def isdecimal_def)

text \<open>
  Claim C6 as stated gives the whole stem as the class time of the fallback: a stem
  that ends in a blank loses it.
\<close>

theorem class_time_full_stem_counterexample:
  "length (str_split (CHR ''-'') (splitext_root (basename ''hw_20231554 .pdf''))) < 3 \<and>
   class_time (parse_filename_meta ''hw_20231554 .pdf'') \<noteq> splitext_root (basename ''hw_20231554 .pdf'')"
  by (simp add: parse_filename_meta_def basename_def splitext_root_def strip_def isspace_def Let_def)

section \<open>Properties of the record store, the state machine and the exporter\<close>

lemma strip_idem: "strip (strip s) = strip s"
proof -
  define t where "t = dropWhile isspace s"
  define u where "u = rev (dropWhile isspace (rev t))"
  have hd_t: "t \<noteq> [] \<Longrightarrow> \<not> isspace (hd t)"
    unfolding t_def by (rule hd_dropWhile)
  have "t = u @ rev (takeWhile isspace (rev t))"
    unfolding u_def by (metis rev_append rev_rev_ident takeWhile_dropWhile_id)
  then have "u \<noteq> [] \<Longrightarrow> hd u = hd t" by (metis hd_append2)
  moreover have "u \<noteq> [] \<Longrightarrow> t \<noteq> []" unfolding u_def by auto
  ultimately have "u \<noteq> [] \<Longrightarrow> \<not> isspace (hd u)" using hd_t by simp
  then have "dropWhile isspace u = u" by (cases u) auto
  moreover have "rev (dropWhile isspace (rev u)) = u"
    unfolding u_def by simp
  ultimately show ?thesis
    by (simp add: strip_def t_def [symmetric] u_def [symmetric])
qed

lemma py_int_strip: "py_int (strip s) = py_int s"
  by (simp add: py_int_def strip_idem)

lemma clamp_int_None: "(clamp_int e lo hi None = None) = (py_int e = None)"
  by (simp add: clamp_int_def py_int_strip split: option.splits)

lemma clamp_int_range:
  "lo \<le> hi \<Longrightarrow> clamp_int e lo hi None = Some v \<Longrightarrow> lo \<le> v \<and> v \<le> hi"
  by (auto simp: clamp_int_def split: option.splits if_splits)

lemma py_int_Nil: "py_int [] = None"
  by (simp add: py_int_def strip_def)

text \<open>
  Claim C4. When neither score entry reads as an integer (\<open>int\<close> raises on the empty
  string as on any other text that is no number), \<open>save_current\<close> shows the warning
  and returns \<open>False\<close>; the table is the one it was and nothing is written to the CSV
  file.
\<close>

theorem save_current_rejects_absent_scores:
  assumes "py_int (entry_q1 s) = None" and "py_int (entry_q2 s) = None"
  shows "save_current s = Inr (False, s \<lparr> dialogs := dialogs s @ [showwarning] \<rparr>) \<and>
         df (s \<lparr> dialogs := dialogs s @ [showwarning] \<rparr>) = df s \<and>
         csv_writes (s \<lparr> dialogs := dialogs s @ [showwarning] \<rparr>) = csv_writes s"
  using assms by (simp add: save_current_def compute_total_def clamp_int_None Let_def)

lemma last_match_Some:
  assumes "last_match m = Some i"
  shows "i < length m \<and> m ! i \<and> (\<forall>j. i < j \<and> j < length m \<longrightarrow> \<not> m ! j)"
proof -
  define js where "js = filter (\<lambda>i. m ! i) [0..<length m]"
  from assms have ne: "js \<noteq> []" and i: "i = last js"
    by (auto simp: last_match_def js_def split: list.splits)
  have srt: "sorted js" unfolding js_def by (simp add: sorted_wrt_filter)
  from ne have mem: "last js \<in> set js" by simp
  then have a: "i < length m" "m ! i" using i by (auto simp: js_def)
  have "\<not> m ! j" if "i < j" "j < length m" for j
  proof
    assume "m ! j"
    with that have "j \<in> set js" by (simp add: js_def)
    then obtain n where n: "n < length js" "js ! n = j" by (auto simp: in_set_conv_nth)
    have "js ! n \<le> js ! (length js - 1)"
      using srt n ne by (intro sorted_nth_mono) auto
    then have "j \<le> i" using n ne i by (simp add: last_conv_nth)
    with that show False by simp
  qed
  with a show ?thesis by blast
qed

lemma last_match_None: "(last_match m = None) = (True \<notin> set m)"
proof -
  have "(filter (\<lambda>i. m ! i) [0..<length m] = []) = (True \<notin> set m)"
    by (auto simp: filter_empty_conv in_set_conv_nth)
  then show ?thesis by (auto simp: last_match_def split: list.splits)
qed

lemma length_rows_set_at: "length (rows (set_at d i k v)) = length (rows d)"
  by (simp add: set_at_def add_column_def Let_def)


lemma lookup_set_at:
  "i < length (rows d) \<Longrightarrow>
   map_of (rows (set_at d i k v) ! i) k' = (if k' = k then Some v else map_of (rows d ! i) k')"
  by (auto simp: set_at_def add_column_def Let_def update_conv' map_add_def split: option.splits)

lemma set_at_present:
  "k \<in> set (columns d) \<Longrightarrow>
   set_at d i k v = d \<lparr> rows := (rows d)[i := AList.update k v (rows d ! i)] \<rparr>"
  by (simp add: set_at_def)

lemma fold_set_at_length:
  "length (rows (fold (\<lambda>(k, v) d. set_at d i k v) kvs d)) = length (rows d)"
  by (induction kvs arbitrary: d) (auto simp: length_rows_set_at)


lemma fold_set_at_lookup:
  assumes "i < length (rows d)" and "distinct (map fst kvs)"
  shows "map_of (rows (fold (\<lambda>(k, v) d. set_at d i k v) kvs d) ! i) k' =
         (case map_of kvs k' of Some v \<Rightarrow> Some v | None \<Rightarrow> map_of (rows d ! i) k')"
  using assms
proof (induction kvs arbitrary: d)
  case Nil
  show ?case by simp
next
  case (Cons kv kvs)
  obtain k v where kv: "kv = (k, v)" by (cases kv)
  from Cons.prems have len: "i < length (rows (set_at d i k v))"
    by (simp add: length_rows_set_at)
  from Cons.prems kv have dist: "distinct (map fst kvs)" and notin: "k \<notin> fst ` set kvs"
    by auto
  from notin have none: "map_of kvs k = None" by (simp add: map_of_eq_None_iff)
  show ?case
    using Cons.IH [OF len dist] Cons.prems(1) none
    by (auto simp: kv lookup_set_at split: option.splits)
qed

lemma items_keys: "map fst (items rec) = cols"
  by (simp add: items_def cols_def)

lemma distinct_cols: "distinct cols"
  by (simp add: cols_def)

lemma map_of_tabulate:
  "map_of (map (\<lambda>c. (c, f c)) cs) k = (if k \<in> set cs then Some (f k) else None)"
  by (induction cs) auto

lemma concat_row_last:
  "rows (concat_row t kvs) ! length (rows t) =
   map (\<lambda>c. (c, cell_at kvs c)) (columns (concat_row t kvs))"
  by (simp add: concat_row_def Let_def nth_append)

lemma concat_row_columns:
  "set (columns (concat_row t kvs)) = set (columns t) \<union> fst ` set kvs"
  by (auto simp: concat_row_def Let_def)

lemma concat_row_length: "length (rows (concat_row t kvs)) = Suc (length (rows t))"
  by (simp add: concat_row_def Let_def)

lemma concat_row_lookup:
  assumes "(k, v) \<in> set kvs" and "distinct (map fst kvs)"
  shows "map_of (rows (concat_row t kvs) ! length (rows t)) k = Some v"
proof -
  from assms have "map_of kvs k = Some v" by simp
  then have "cell_at kvs k = v" by (simp add: cell_at_def)
  moreover from assms(1) have "k \<in> set (columns (concat_row t kvs))"
    by (force simp: concat_row_columns)
  ultimately show ?thesis by (simp add: concat_row_last map_of_tabulate)
qed

lemma upsert_stores:
  assumes "upsert t rec = Inr t'" and "(k, v) \<in> set (items rec)"
  shows "upsert_index t (student_id rec) < length (rows t') \<and>
         map_of (rows t' ! upsert_index t (student_id rec)) k = Some v"
proof -
  have dist: "distinct (map fst (items rec))" by (simp add: items_keys distinct_cols)
  from assms(2) dist have look: "map_of (items rec) k = Some v" by simp
  show ?thesis
  proof (cases "student_id rec = []")
    case True
    with assms(1) have "t' = concat_row t (items rec)" by (simp add: upsert_def)
    with True assms(2) dist show ?thesis
      by (simp add: upsert_index_def concat_row_length concat_row_lookup)
  next
    case False
    show ?thesis
    proof (cases "last_match (map (\<lambda>x. x = student_id rec) (sid_strs t))")
      case None
      with False assms(1) have "t' = concat_row t (items rec)"
        by (simp add: upsert_def Let_def split: if_splits)
      with None False assms(2) dist show ?thesis
        by (simp add: upsert_index_def concat_row_length concat_row_lookup)
    next
      case (Some i)
      with False assms(1) have t': "t' = fold (\<lambda>(k, v) d. set_at d i k v) (items rec) t"
        by (simp add: upsert_def Let_def split: if_splits)
      from last_match_Some [OF Some] have i: "i < length (rows t)"
        by (simp add: sid_strs_def)
      from Some False i look show ?thesis
        by (simp add: upsert_index_def t' fold_set_at_length fold_set_at_lookup [OF i dist])
    qed
  qed
qed

text \<open>
  Claim C7. After a save that succeeds, the row written for the student holds as
  \<open>total_score\<close> the sum of the two scores read from the entries, a score that is
  absent counting 0; the row holds each score as read, the empty string for an absent
  one; at least one score is present, and each score present lies between 0 and 50.
\<close>

theorem save_current_total:
  assumes "save_current s = Inr (True, s')"
  shows "let q1 = clamp_int (entry_q1 s) 0 50 None;
             q2 = clamp_int (entry_q2 s) 0 50 None;
             i = upsert_index (df s) (strip (var_student_id s));
             r = rows (df s') ! i
         in i < length (rows (df s')) \<and>
            map_of r ''total_score'' = Some (Num (or_zero q1 + or_zero q2)) \<and>
            map_of r ''q1_score'' = Some (score_cell q1) \<and>
            map_of r ''q2_score'' = Some (score_cell q2) \<and>
            (q1 \<noteq> None \<or> q2 \<noteq> None) \<and>
            (\<forall>v. q1 = Some v \<or> q2 = Some v \<longrightarrow> 0 \<le> v \<and> v \<le> 50)"
proof -
  define q1 where "q1 = clamp_int (entry_q1 s) 0 50 None"
  define q2 where "q2 = clamp_int (entry_q2 s) 0 50 None"
  define rec where "rec = \<lparr> class_time = var_class_time s, name = var_name s,
      student_id = strip (var_student_id s), q1_score = q1, q2_score = q2,
      total_score = or_zero q1 + or_zero q2,
      comment = strip (text_comment s @ [CHR 0x0A]), file' = var_file s \<rparr>"
  from assms have some: "q1 \<noteq> None \<or> q2 \<noteq> None"
    by (auto simp: save_current_def compute_total_def Let_def q1_def q2_def
        split: if_splits)
  with assms have up: "upsert (df s) rec = Inr (df s')"
    by (auto simp: save_current_def compute_total_def Let_def q1_def q2_def rec_def
        split: sum.splits if_splits)
  have sid: "student_id rec = strip (var_student_id s)" by (simp add: rec_def)
  have "(''total_score'', Num (or_zero q1 + or_zero q2)) \<in> set (items rec)"
    and "(''q1_score'', score_cell q1) \<in> set (items rec)"
    and "(''q2_score'', score_cell q2) \<in> set (items rec)"
    by (simp_all add: items_def rec_def)
  from this [THEN upsert_stores [OF up]]
  have stored: "upsert_index (df s) (strip (var_student_id s)) < length (rows (df s'))"
    "map_of (rows (df s') ! upsert_index (df s) (strip (var_student_id s))) ''total_score''
       = Some (Num (or_zero q1 + or_zero q2))"
    "map_of (rows (df s') ! upsert_index (df s) (strip (var_student_id s))) ''q1_score''
       = Some (score_cell q1)"
    "map_of (rows (df s') ! upsert_index (df s) (strip (var_student_id s))) ''q2_score''
       = Some (score_cell q2)"
    by (simp_all add: sid)
  have range: "0 \<le> v \<and> v \<le> 50" if "q1 = Some v \<or> q2 = Some v" for v
    using that clamp_int_range [of 0 50] by (auto simp: q1_def q2_def)
  show ?thesis
    using stored some range
    by (simp add: Let_def q1_def [symmetric] q2_def [symmetric])
qed

lemma ex_state_saved:
  "save_current (ex_state \<lparr> entry_q1 := ''30'' \<rparr>) =
   Inr (True, ex_state \<lparr> entry_q1 := ''30'',
          df := \<lparr> columns = cols, rows = [ex_row (Num 30) (Str []) 30] \<rparr>,
          csv_writes := [\<lparr> columns = cols, rows = [ex_row (Num 30) (Str []) 30] \<rparr>] \<rparr>)"
  by code_simp

text \<open>
  The specification's example: 30 for the first question and nothing for the second.
\<close>

theorem save_current_total_witness:
  "save_current (ex_state \<lparr> entry_q1 := ''30'' \<rparr>) =
     Inr (True, ex_state \<lparr> entry_q1 := ''30'',
          df := \<lparr> columns = cols, rows = [ex_row (Num 30) (Str []) 30] \<rparr>,
          csv_writes := [\<lparr> columns = cols, rows = [ex_row (Num 30) (Str []) 30] \<rparr>] \<rparr>) \<and>
   clamp_int ''30'' 0 50 None = Some 30 \<and>
   clamp_int [] 0 50 None = None \<and>
   upsert_index \<lparr> columns = cols, rows = [] \<rparr> (strip ''12'') = 0 \<and>
   map_of (ex_row (Num 30) (Str []) 30) ''total_score'' = Some (Num 30) \<and>
   map_of (ex_row (Num 30) (Str []) 30) ''q1_score'' = Some (Num 30) \<and>
   map_of (ex_row (Num 30) (Str []) 30) ''q2_score'' = Some (Str [])"
proof -
  have a: "clamp_int ''30'' 0 50 None = Some 30" by code_simp
  have b: "clamp_int [] 0 50 None = None" by code_simp
  have c: "upsert_index \<lparr> columns = cols, rows = [] \<rparr> (strip ''12'') = 0" by code_simp
  show ?thesis
    using save_current_total [OF ex_state_saved] ex_state_saved
    by (simp add: a b c Let_def or_zero_def score_cell_def ex_state_def)
qed

text \<open>
  An empty first entry and a second entry that is no number.
\<close>

theorem save_current_rejects_absent_scores_witness:
  "save_current (ex_state \<lparr> entry_q2 := ''abc'' \<rparr>) =
     Inr (False, ex_state \<lparr> entry_q2 := ''abc'', dialogs := [showwarning] \<rparr>)"
proof -
  have a: "py_int [] = None" "py_int ''abc'' = None" by code_simp+
  show ?thesis
    using save_current_rejects_absent_scores [of "ex_state \<lparr> entry_q2 := ''abc'' \<rparr>"]
    by (simp add: a ex_state_def)
qed

lemma fold_add_columns:
  "distinct cs \<Longrightarrow>
   fold (\<lambda>c d. if c \<in> set (columns d) then d else add_column c v d) cs (t :: dataframe) =
   \<lparr> columns = columns t @ filter (\<lambda>c. c \<notin> set (columns t)) cs,
     rows = map (\<lambda>r. r @ map (\<lambda>c. (c, v)) (filter (\<lambda>c. c \<notin> set (columns t)) cs)) (rows t) \<rparr>"
proof (induction cs arbitrary: t)
  case Nil
  show ?case by simp
next
  case (Cons c cs)
  then have dist: "distinct cs" and notin: "c \<notin> set cs" by auto
  show ?case
  proof (cases "c \<in> set (columns t)")
    case True
    then show ?thesis using Cons.IH [OF dist, of t] by simp
  next
    case False
    have same: "filter (\<lambda>x. x \<notin> set (columns (add_column c v t))) cs
                = filter (\<lambda>x. x \<notin> set (columns t)) cs"
      using notin by (auto simp: add_column_def intro: filter_cong)
    show ?thesis
      using False Cons.IH [OF dist, of "add_column c v t"]
      by (simp add: same) (simp add: add_column_def)
  qed
qed

lemma ensure_columns_eq:
  "ensure_columns t =
   \<lparr> columns = columns t @ filter (\<lambda>c. c \<notin> set (columns t)) cols,
     rows = map (\<lambda>r. r @ map (\<lambda>c. (c, Str [])) (filter (\<lambda>c. c \<notin> set (columns t)) cols))
                (rows t) \<rparr>"
  unfolding ensure_columns_def by (rule fold_add_columns [OF distinct_cols])

lemma has_cols_iff: "has_cols t = (set cols \<subseteq> set (columns t))"
  by (auto simp: has_cols_def list_all_iff)

lemma ensure_columns_id: "has_cols t \<Longrightarrow> ensure_columns t = t"
proof -
  assume "has_cols t"
  then have "filter (\<lambda>c. c \<notin> set (columns t)) cols = []"
    by (auto simp: has_cols_iff filter_empty_conv)
  then show ?thesis by (simp add: ensure_columns_eq)
qed

lemma has_cols_ensure: "has_cols (ensure_columns t)"
  by (auto simp: has_cols_iff ensure_columns_eq)

lemma has_cols_load: "has_cols (load_existing_csv parsed)"
proof (cases parsed)
  case None
  then show ?thesis by (simp add: load_existing_csv_def has_cols_iff)
next
  case (Some t)
  then show ?thesis by (simp add: load_existing_csv_def has_cols_ensure)
qed

text \<open>
  Claim C10. The table that the caller passed is, after the call, the table with the
  missing ones of the eight columns added after its own columns, in the order of the
  eight, every row given the empty string in each of them; the sheets are made from that
  table. A table that has the eight columns is left as it was.
\<close>

theorem export_gradebook_adds_columns_in_place:
  "fst (export_gradebook t) = ensure_columns t \<and>
   columns (ensure_columns t) = columns t @ filter (\<lambda>c. c \<notin> set (columns t)) cols \<and>
   rows (ensure_columns t) =
     map (\<lambda>r. r @ map (\<lambda>c. (c, Str [])) (filter (\<lambda>c. c \<notin> set (columns t)) cols)) (rows t) \<and>
   snd (export_gradebook t) = snd (export_gradebook (ensure_columns t)) \<and>
   (has_cols t \<longrightarrow> fst (export_gradebook t) = t)"
proof -
  have "ensure_columns (ensure_columns t) = ensure_columns t"
    by (rule ensure_columns_id [OF has_cols_ensure])
  then show ?thesis
    by (simp add: export_gradebook_def Let_def ensure_columns_id)
      (simp add: ensure_columns_eq)
qed

text \<open>
  A table with two of the columns, and an empty table with all eight.
\<close>

theorem export_gradebook_adds_columns_in_place_witness:
  "fst (export_gradebook \<lparr> columns = [''name'', ''student_id''],
          rows = [[(''name'', Str ''Li''), (''student_id'', Str ''12'')]] \<rparr>) =
     \<lparr> columns = [''name'', ''student_id'', ''class_time'', ''q1_score'', ''q2_score'',
                   ''total_score'', ''comment'', ''file''],
       rows = [[(''name'', Str ''Li''), (''student_id'', Str ''12''), (''class_time'', Str []),
                (''q1_score'', Str []), (''q2_score'', Str []), (''total_score'', Str []),
                (''comment'', Str []), (''file'', Str [])]] \<rparr> \<and>
   has_cols \<lparr> columns = cols, rows = [] \<rparr> \<and>
   fst (export_gradebook \<lparr> columns = cols, rows = [] \<rparr>) = \<lparr> columns = cols, rows = [] \<rparr>"
proof -
  have a: "has_cols \<lparr> columns = cols, rows = [] \<rparr>" by (simp add: has_cols_iff)
  have b: "ensure_columns \<lparr> columns = [''name'', ''student_id''],
          rows = [[(''name'', Str ''Li''), (''student_id'', Str ''12'')]] \<rparr> =
     \<lparr> columns = [''name'', ''student_id'', ''class_time'', ''q1_score'', ''q2_score'',
                   ''total_score'', ''comment'', ''file''],
       rows = [[(''name'', Str ''Li''), (''student_id'', Str ''12''), (''class_time'', Str []),
                (''q1_score'', Str []), (''q2_score'', Str []), (''total_score'', Str []),
                (''comment'', Str []), (''file'', Str [])]] \<rparr>"
    by code_simp
  show ?thesis
    using export_gradebook_adds_columns_in_place [of "\<lparr> columns = cols, rows = [] \<rparr>"]
      export_gradebook_adds_columns_in_place [of "\<lparr> columns = [''name'', ''student_id''],
          rows = [[(''name'', Str ''Li''), (''student_id'', Str ''12'')]] \<rparr>"]
    by (simp add: a b)
qed

lemma digit_not_space: "isdigit_char c \<Longrightarrow> \<not> isspace c"
  by (auto simp: isdigit_char_def isdecimal_def isspace_def Let_def)

lemma digit_not_sign: "isdigit_char c \<Longrightarrow> c \<noteq> CHR ''-'' \<and> c \<noteq> CHR ''+'' \<and> c \<noteq> CHR ''_''"
  by (auto simp: isdigit_char_def isdecimal_def Let_def)

lemma strip_no_space:
  assumes "list_all (\<lambda>c. \<not> isspace c) s"
  shows "strip s = s"
proof -
  from assms have "dropWhile isspace s = s"
    by (cases s) auto
  moreover from assms have "dropWhile isspace (rev s) = rev s"
    by (cases "rev s") (auto simp: list_all_iff dest: arg_cong [where f = set])
  ultimately show ?thesis by (simp add: strip_def)
qed

lemma strip_digits: "list_all isdigit_char s \<Longrightarrow> strip s = s"
  by (rule strip_no_space) (auto simp: list_all_iff digit_not_space)

lemma digit_val_range: "isdecimal c \<Longrightarrow> 0 \<le> digit_val c \<and> digit_val c \<le> 9"
  by (auto simp: isdecimal_def digit_val_def Let_def)

lemma py_int_two_digits:
  assumes "length s \<le> 2" and "list_all isdigit_char s" and "py_int s = Some n"
  shows "0 \<le> n \<and> n < 100"
proof -
  have st: "strip s = s" using assms(2) by (rule strip_digits)
  have "s = [] \<or> (\<exists>a. s = [a]) \<or> (\<exists>a b. s = [a, b])"
  proof (cases s)
    case Nil
    then show ?thesis by simp
  next
    case (Cons a t)
    note outer = this
    show ?thesis
    proof (cases t)
      case Nil
      with outer show ?thesis by simp
    next
      case (Cons b u)
      with outer assms(1) have "u = []" by simp
      with outer Cons show ?thesis by simp
    qed
  qed
  then consider "s = []" | a where "s = [a]" | a b where "s = [a, b]"
    by blast
  then show ?thesis
  proof cases
    case 1
    with assms(3) show ?thesis by (simp add: py_int_def strip_def)
  next
    case 2
    with assms(2) have d: "isdigit_char a" by simp
    from assms(3) st 2 digit_not_sign [OF d] digit_val_range [of a] show ?thesis
      by (auto simp: py_int_def split: if_splits)
  next
    case 3
    with assms(2) have d: "isdigit_char a" "isdigit_char b" by simp_all
    from assms(3) st 3 digit_not_sign [OF d(1)] digit_not_sign [OF d(2)]
      digit_val_range [of a] digit_val_range [of b]
    show ?thesis
      by (auto simp: py_int_def split: if_splits)
  qed
qed

lemma preview_keeps_quick:
  "quick_buffer (preview_quick_value s st) = quick_buffer s \<and>
   quick_stage (preview_quick_value s st) = quick_stage s \<and>
   focus_in_comment (preview_quick_value s st) = focus_in_comment s"
  by (simp add: preview_quick_value_def Let_def)


lemma isdigit_single: "isdigit ch \<Longrightarrow> length ch \<le> 1 \<Longrightarrow> \<exists>c. ch = [c] \<and> isdigit_char c"
  by (cases ch) (auto simp: isdigit_def)

lemma good_on_keypress:
  assumes "good_buffer s" and "length ch \<le> 1"
  shows "good_buffer (on_keypress s ch)"
proof (cases "focus_in_comment s \<or> (quick_stage s \<noteq> 1 \<and> quick_stage s \<noteq> 2) \<or> ch = [] \<or> \<not> isdigit ch")
  case True
  with assms(1) show ?thesis by (auto simp: on_keypress_def)
next
  case False
  then obtain c where c: "ch = [c]" "isdigit_char c"
    using isdigit_single [OF _ assms(2)] by blast
  from False assms(1) c show ?thesis
    by (auto simp: on_keypress_def good_buffer_def preview_keeps_quick Let_def)
qed

lemma good_on_backspace: "good_buffer s \<Longrightarrow> good_buffer (on_backspace s)"
  by (auto simp: on_backspace_def good_buffer_def preview_keeps_quick list_all_iff
      dest: in_set_butlastD)

lemma good_reset: "good_buffer (reset_quick s st)"
  by (simp add: good_buffer_def reset_quick_def)

lemma good_on_escape: "good_buffer s \<Longrightarrow> good_buffer (on_escape s)"
  by (simp add: on_escape_def good_reset)

lemma good_commit: "good_buffer ((commit_quick_buffer s) \<lparr> quick_stage := st, quick_buffer := [] \<rparr>)"
  by (simp add: good_buffer_def)

lemma good_on_enter: "good_buffer s \<Longrightarrow> on_enter s = Inr s' \<Longrightarrow> good_buffer s'"
  by (auto simp: on_enter_def good_reset good_commit split: if_splits sum.splits)

lemma good_focus: "good_buffer (s \<lparr> focus_in_comment := b \<rparr>) = good_buffer s"
  by (simp add: good_buffer_def)

lemma good_step: "good_buffer s \<Longrightarrow> step s e = Inr s' \<Longrightarrow>
    (\<forall>ch. e = KeyPress ch \<longrightarrow> length ch \<le> 1) \<Longrightarrow> good_buffer s'"
  by (cases e)
    (auto simp: good_on_keypress good_on_backspace good_on_escape good_focus
      dest: good_on_enter)

lemma good_run:
  "good_buffer s \<Longrightarrow> run s evs = Inr s' \<Longrightarrow>
   (\<forall>ch. KeyPress ch \<in> set evs \<longrightarrow> length ch \<le> 1) \<Longrightarrow> good_buffer s'"
proof (induction evs arbitrary: s)
  case Nil
  then show ?case by simp
next
  case (Cons e evs)
  from Cons.prems(2) obtain s1 where s1: "step s e = Inr s1" "run s1 evs = Inr s'"
    by (auto split: sum.splits)
  from Cons.prems(3) have "\<forall>ch. e = KeyPress ch \<longrightarrow> length ch \<le> 1" by simp
  with Cons.prems(1) s1(1) have "good_buffer s1" by (rule good_step)
  with Cons.IH s1(2) Cons.prems(3) show ?case by simp
qed

text \<open>
  Claim C9. In every state reached from an empty buffer by key events that carry at most
  one character each, the buffer holds at most two characters, and a buffer that reads as
  a number reads as one below 100; a digit key typed there, outside the comment box and
  in the first or second stage, replaces a buffer of two characters and is appended to a
  shorter one, and the buffer is again at most two characters long.
\<close>

theorem quick_buffer_two_digits:
  assumes "run s0 evs = Inr s"
    and "quick_buffer s0 = []"
    and "\<forall>ch. KeyPress ch \<in> set evs \<longrightarrow> length ch \<le> 1"
  shows "length (quick_buffer s) \<le> 2 \<and>
         (\<forall>n. py_int (quick_buffer s) = Some n \<longrightarrow> 0 \<le> n \<and> n < 100) \<and>
         (\<forall>c. isdigit_char c \<and> \<not> focus_in_comment s \<and> (quick_stage s = 1 \<or> quick_stage s = 2) \<longrightarrow>
              quick_buffer (on_keypress s [c]) =
                (if length (quick_buffer s) = 2 then [c] else quick_buffer s @ [c]) \<and>
              length (quick_buffer (on_keypress s [c])) \<le> 2)"
proof -
  from assms(2) have "good_buffer s0" by (simp add: good_buffer_def)
  from this assms(1,3) have good: "good_buffer s" by (rule good_run)
  then have len: "length (quick_buffer s) \<le> 2" by (simp add: good_buffer_def)
  have val: "0 \<le> n \<and> n < 100" if "py_int (quick_buffer s) = Some n" for n
    using good that py_int_two_digits [of "quick_buffer s" n] by (simp add: good_buffer_def)
  have key: "quick_buffer (on_keypress s [c]) =
                (if length (quick_buffer s) = 2 then [c] else quick_buffer s @ [c]) \<and>
              length (quick_buffer (on_keypress s [c])) \<le> 2"
    if "isdigit_char c" "\<not> focus_in_comment s" "quick_stage s = 1 \<or> quick_stage s = 2" for c
    using that len
    by (auto simp: on_keypress_def isdigit_def preview_keeps_quick Let_def)
  from len val key show ?thesis by blast
qed


text \<open>
  The specification's example: after the keys 9 and 9, the key 5 leaves the buffer 5.
\<close>

theorem quick_buffer_two_digits_witness:
  "run ex_state [KeyPress ''9'', KeyPress ''9''] =
     Inr (ex_state \<lparr> entry_q1 := ''50'', quick_buffer := ''99'' \<rparr>) \<and>
   quick_buffer (on_keypress (ex_state \<lparr> entry_q1 := ''50'', quick_buffer := ''99'' \<rparr>) ''5'') = ''5'' \<and>
   py_int ''99'' = Some 99"
proof -
  have r: "run ex_state [KeyPress ''9'', KeyPress ''9''] =
     Inr (ex_state \<lparr> entry_q1 := ''50'', quick_buffer := ''99'' \<rparr>)"
    by code_simp
  have d: "isdigit_char CHR ''5''" by code_simp
  have e: "quick_buffer ex_state = []" by (simp add: ex_state_def)
  have p: "py_int ''99'' = Some 99" by code_simp
  have k: "\<forall>ch. KeyPress ch \<in> set [KeyPress ''9'', KeyPress ''9''] \<longrightarrow> length ch \<le> 1"
    by simp
  from quick_buffer_two_digits [OF r e k] d r p show ?thesis
    by (simp add: ex_state_def)
qed
















lemma fold_set_at_present:
  assumes "fst ` set kvs \<subseteq> set (columns d)" and "i < length (rows d)"
  shows "fold (\<lambda>(k, v) d. set_at d i k v) kvs d =
         d \<lparr> rows := (rows d)[i := write_row kvs (rows d ! i)] \<rparr>"
  using assms
proof (induction kvs arbitrary: d)
  case Nil
  then show ?case by (simp add: write_row_def)
next
  case (Cons kv kvs)
  obtain k v where kv: "kv = (k, v)" by (cases kv)
  define d1 where "d1 = d \<lparr> rows := (rows d)[i := AList.update k v (rows d ! i)] \<rparr>"
  from Cons.prems kv have k: "k \<in> set (columns d)" by simp
  then have step: "set_at d i k v = d1" by (simp add: set_at_present d1_def)
  have d1: "fst ` set kvs \<subseteq> set (columns d1)" "i < length (rows d1)"
    using Cons.prems by (simp_all add: d1_def)
  have "fold (\<lambda>(k, v) d. set_at d i k v) (kv # kvs) d =
        fold (\<lambda>(k, v) d. set_at d i k v) kvs d1"
    by (simp add: kv step)
  also have "\<dots> = d1 \<lparr> rows := (rows d1)[i := write_row kvs (rows d1 ! i)] \<rparr>"
    by (rule Cons.IH [OF d1])
  also have "\<dots> = d \<lparr> rows := (rows d)[i := write_row (kv # kvs) (rows d ! i)] \<rparr>"
    using Cons.prems(2) by (simp add: d1_def write_row_def kv)
  finally show ?case .
qed

lemma write_row_lookup:
  "distinct (map fst kvs) \<Longrightarrow>
   map_of (write_row kvs r) k = (case map_of kvs k of Some v \<Rightarrow> Some v | None \<Rightarrow> map_of r k)"
proof (induction kvs arbitrary: r)
  case Nil
  show ?case by (simp add: write_row_def)
next
  case (Cons kv kvs)
  obtain k' v' where kv: "kv = (k', v')" by (cases kv)
  from Cons.prems kv have dist: "distinct (map fst kvs)" and "k' \<notin> fst ` set kvs" by auto
  then have none: "map_of kvs k' = None" by (simp add: map_of_eq_None_iff)
  have "map_of (write_row (kv # kvs) r) k = map_of (write_row kvs (AList.update k' v' r)) k"
    by (simp add: write_row_def kv)
  also have "\<dots> = (case map_of kvs k of Some v \<Rightarrow> Some v
                      | None \<Rightarrow> map_of (AList.update k' v' r) k)"
    by (rule Cons.IH [OF dist])
  finally show ?case
    using none by (auto simp: kv update_conv' split: option.splits)
qed

lemma write_row_keys:
  "fst ` set kvs \<subseteq> fst ` set r \<Longrightarrow> map fst (write_row kvs r) = map fst r"
proof (induction kvs arbitrary: r)
  case Nil
  show ?case by (simp add: write_row_def)
next
  case (Cons kv kvs)
  obtain k v where kv: "kv = (k, v)" by (cases kv)
  from Cons.prems kv have k: "k \<in> fst ` set r" by simp
  then have keys: "map fst (AList.update k v r) = map fst r" by (simp add: update_keys)
  have "fst ` set (AList.update k v r) = fst ` set r"
    using arg_cong [OF keys, of set] by simp
  with Cons.prems have "fst ` set kvs \<subseteq> fst ` set (AList.update k v r)" by simp
  from Cons.IH [OF this] keys show ?case by (simp add: write_row_def kv)
qed

lemma write_row_same:
  "\<forall>(k, v) \<in> set ps. map_of x k = Some v \<Longrightarrow> write_row ps x = x"
proof (induction ps)
  case Nil
  show ?case by (simp add: write_row_def)
next
  case (Cons p ps)
  obtain k v where p: "p = (k, v)" by (cases p)
  from Cons.prems p have "map_of x k = Some v" by simp
  then have "AList.update k v x = x" by (rule update_triv)
  with Cons show ?case by (simp add: write_row_def p)
qed

lemma write_row_idem:
  assumes "distinct (map fst kvs)"
  shows "write_row kvs (write_row kvs r) = write_row kvs r"
proof -
  have "\<forall>(k, v) \<in> set kvs. map_of (write_row kvs r) k = Some v"
    using assms by (auto simp: write_row_lookup)
  then show ?thesis by (rule write_row_same)
qed

lemma has_cols_items: "has_cols t \<Longrightarrow> fst ` set (items rec) \<subseteq> set (columns t)"
  using items_keys [of rec] by (metis has_cols_iff list.set_map)

lemma has_cols_sid: "has_cols t \<Longrightarrow> ''student_id'' \<in> set (columns t)"
  by (auto simp: has_cols_iff cols_def)

lemma concat_row_present:
  assumes "fst ` set kvs \<subseteq> set (columns t)"
  shows "concat_row t kvs = t \<lparr> rows := rows t @ [new_row t kvs] \<rparr>"
proof -
  from assms have "filter (\<lambda>k. k \<notin> set (columns t)) (map fst kvs) = []"
    by (auto simp: filter_empty_conv)
  then show ?thesis by (simp add: concat_row_def new_row_def Let_def)
qed

lemma items_sid: "map_of (items rec) ''student_id'' = Some (Str (student_id rec))"
  by (simp add: items_def)

lemma distinct_items: "distinct (map fst (items rec))"
  by (simp add: items_keys distinct_cols)

lemma sid_write_row:
  "str_cell (cell_at (write_row (items rec) r) ''student_id'') = student_id rec"
  by (simp add: cell_at_def write_row_lookup [OF distinct_items] items_sid)

lemma sid_new_row:
  "''student_id'' \<in> set (columns t) \<Longrightarrow>
   str_cell (cell_at (new_row t (items rec)) ''student_id'') = student_id rec"
  by (simp add: new_row_def cell_at_def map_of_tabulate items_sid)

lemma last_match_eq:
  "(last_match (map (\<lambda>x. x = sid) xs) = None) = (sid \<notin> set xs)"
  by (auto simp: last_match_None)

lemma last_match_sid:
  assumes "last_match (map (\<lambda>x. x = sid) xs) = Some i"
  shows "i < length xs \<and> xs ! i = sid \<and> (\<forall>j. i < j \<and> j < length xs \<longrightarrow> xs ! j \<noteq> sid)"
  using last_match_Some [OF assms] by auto

lemma upsert_overwrite:
  assumes "has_cols t" and "student_id rec \<noteq> []"
    and "last_match (map (\<lambda>x. x = student_id rec) (sid_strs t)) = Some i"
  shows "upsert t rec = Inr (t \<lparr> rows := (rows t)[i := write_row (items rec) (rows t ! i)] \<rparr>)"
proof -
  from last_match_Some [OF assms(3)] have i: "i < length (rows t)" by (simp add: sid_strs_def)
  from assms show ?thesis
    by (simp add: upsert_def Let_def has_cols_sid
        fold_set_at_present [OF has_cols_items [OF assms(1)] i])
qed

lemma upsert_append:
  assumes "has_cols t"
    and "student_id rec = [] \<or> student_id rec \<notin> set (sid_strs t)"
  shows "upsert t rec = Inr (t \<lparr> rows := rows t @ [new_row t (items rec)] \<rparr>)"
proof -
  have c: "concat_row t (items rec) = t \<lparr> rows := rows t @ [new_row t (items rec)] \<rparr>"
    by (rule concat_row_present [OF has_cols_items [OF assms(1)]])
  show ?thesis
  proof (cases "student_id rec = []")
    case True
    then show ?thesis by (simp add: upsert_def c)
  next
    case False
    with assms(2) have "last_match (map (\<lambda>x. x = student_id rec) (sid_strs t)) = None"
      by (simp add: last_match_eq)
    with False assms(1) show ?thesis by (simp add: upsert_def Let_def has_cols_sid c)
  qed
qed

lemma sid_strs_overwrite:
  assumes "i < length (rows t)" and "sid_strs t ! i = student_id rec"
  shows "sid_strs (t \<lparr> rows := (rows t)[i := write_row (items rec) (rows t ! i)] \<rparr>) = sid_strs t"
proof -
  have "sid_strs (t \<lparr> rows := (rows t)[i := write_row (items rec) (rows t ! i)] \<rparr>)
        = (sid_strs t)[i := student_id rec]"
    by (simp add: sid_strs_def map_update sid_write_row)
  also have "\<dots> = sid_strs t"
    using assms by (metis list_update_id)
  finally show ?thesis .
qed

lemma sid_strs_append:
  assumes "''student_id'' \<in> set (columns t)"
  shows "sid_strs (t \<lparr> rows := rows t @ [new_row t (items rec)] \<rparr>) = sid_strs t @ [student_id rec]"
  using assms by (simp add: sid_strs_def sid_new_row)

lemma has_cols_rows_update: "has_cols (t \<lparr> rows := rs \<rparr>) = has_cols t"
  by (simp add: has_cols_def)

text \<open>What one upsert does to a table with the eight columns.\<close>

lemma upsert_cases:
  assumes "has_cols t"
  shows "\<exists>t1. upsert t rec = Inr t1 \<and> columns t1 = columns t \<and> has_cols t1 \<and>
     (student_id rec \<noteq> [] \<and> student_id rec \<in> set (sid_strs t) \<longrightarrow>
        (let i = upsert_index t (student_id rec)
         in i < length (rows t) \<and> sid_strs t ! i = student_id rec \<and>
            (\<forall>j. i < j \<and> j < length (rows t) \<longrightarrow> sid_strs t ! j \<noteq> student_id rec) \<and>
            rows t1 = (rows t)[i := write_row (items rec) (rows t ! i)] \<and>
            sid_strs t1 = sid_strs t)) \<and>
     (student_id rec = [] \<or> student_id rec \<notin> set (sid_strs t) \<longrightarrow>
        rows t1 = rows t @ [new_row t (items rec)] \<and>
        sid_strs t1 = sid_strs t @ [student_id rec])"
proof (cases "student_id rec \<noteq> [] \<and> student_id rec \<in> set (sid_strs t)")
  case True
  then obtain i where lm: "last_match (map (\<lambda>x. x = student_id rec) (sid_strs t)) = Some i"
    using last_match_eq [of "student_id rec" "sid_strs t"] by auto
  from last_match_Some [OF lm]
  have i: "i < length (rows t)" "sid_strs t ! i = student_id rec"
    "\<forall>j. i < j \<and> j < length (rows t) \<longrightarrow> sid_strs t ! j \<noteq> student_id rec"
    by (auto simp: sid_strs_def)
  from True lm have idx: "upsert_index t (student_id rec) = i" by (simp add: upsert_index_def)
  from True upsert_overwrite [OF assms _ lm] i sid_strs_overwrite [OF i(1,2)] assms
  show ?thesis by (simp add: idx has_cols_rows_update)
next
  case False
  then have a: "student_id rec = [] \<or> student_id rec \<notin> set (sid_strs t)" by blast
  from a upsert_append [OF assms a] sid_strs_append [OF has_cols_sid [OF assms]] assms
  show ?thesis by (auto simp: has_cols_rows_update)
qed



lemma upsert_twice:
  assumes "has_cols t" and "student_id rec \<noteq> []"
  shows "\<exists>t1. upsert t rec = Inr t1 \<and> upsert t1 rec = Inr t1"
proof -
  from upsert_cases [OF assms(1), of rec] obtain t1 where
    t1: "upsert t rec = Inr t1" "has_cols t1" "columns t1 = columns t"
    and over: "student_id rec \<in> set (sid_strs t) \<Longrightarrow>
        upsert_index t (student_id rec) < length (rows t) \<and>
        sid_strs t ! upsert_index t (student_id rec) = student_id rec \<and>
        rows t1 = (rows t)[upsert_index t (student_id rec) :=
                     write_row (items rec) (rows t ! upsert_index t (student_id rec))] \<and>
        sid_strs t1 = sid_strs t"
    and app: "student_id rec \<notin> set (sid_strs t) \<Longrightarrow>
        rows t1 = rows t @ [new_row t (items rec)] \<and>
        sid_strs t1 = sid_strs t @ [student_id rec]"
    using assms(2) by (auto simp: Let_def)
  have "upsert t1 rec = Inr t1"
  proof (cases "student_id rec \<in> set (sid_strs t)")
    case True
    define i where "i = upsert_index t (student_id rec)"
    from over [OF True] have o: "i < length (rows t)"
      "rows t1 = (rows t)[i := write_row (items rec) (rows t ! i)]"
      "sid_strs t1 = sid_strs t"
      by (simp_all add: i_def)
    from True o(3) have mem: "student_id rec \<in> set (sid_strs t1)" by simp
    from mem obtain j where
      lm: "last_match (map (\<lambda>x. x = student_id rec) (sid_strs t1)) = Some j"
      using last_match_eq [of "student_id rec" "sid_strs t1"] by auto
    with assms(2) have j: "j = i" by (simp add: upsert_index_def i_def o(3))
    have "(rows t1)[i := write_row (items rec) (rows t1 ! i)] = rows t1"
      using o(1) by (simp add: o(2) write_row_idem [OF distinct_items])
    with upsert_overwrite [OF t1(2) assms(2) lm] show ?thesis by (simp add: j)
  next
    case False
    define n where "n = length (rows t)"
    from app [OF False] have a: "rows t1 = rows t @ [new_row t (items rec)]"
      "sid_strs t1 = sid_strs t @ [student_id rec]" by simp_all
    have mem: "student_id rec \<in> set (sid_strs t1)" by (simp add: a(2))
    then obtain j where
      lm: "last_match (map (\<lambda>x. x = student_id rec) (sid_strs t1)) = Some j"
      using last_match_eq [of "student_id rec" "sid_strs t1"] by auto
    have j: "j = n"
    proof -
      from last_match_sid [OF lm]
      have 1: "j < length (sid_strs t1)" and 2: "sid_strs t1 ! j = student_id rec" by simp_all
      have len: "length (sid_strs t) = n" by (simp add: sid_strs_def n_def)
      show ?thesis
      proof (rule ccontr)
        assume "j \<noteq> n"
        with 1 have "j < n" by (simp add: a(2) len)
        with 2 have "sid_strs t ! j = student_id rec" by (simp add: a(2) nth_append len)
        with \<open>j < n\<close> have "student_id rec \<in> set (sid_strs t)"
          by (metis len nth_mem)
        with False show False by simp
      qed
    qed
    have row: "rows t1 ! n = new_row t (items rec)" by (simp add: a(1) n_def)
    have "\<forall>(k, v) \<in> set (items rec). map_of (new_row t (items rec)) k = Some v"
    proof clarify
      fix k v assume kv: "(k, v) \<in> set (items rec)"
      then have "k \<in> set (columns t)" using has_cols_items [OF assms(1), of rec] by force
      moreover from kv have "map_of (items rec) k = Some v" using distinct_items by simp
      ultimately show "map_of (new_row t (items rec)) k = Some v"
        by (simp add: new_row_def map_of_tabulate cell_at_def)
    qed
    then have same: "write_row (items rec) (new_row t (items rec)) = new_row t (items rec)"
      by (rule write_row_same)
    have "(rows t1)[n := write_row (items rec) (rows t1 ! n)] = rows t1"
      by (simp add: row same) (simp add: a(1) n_def)
    with upsert_overwrite [OF t1(2) assms(2) lm] show ?thesis by (simp add: j)
  qed
  with t1(1) show ?thesis by blast
qed



text \<open>
  Claim C2, for records with a student number. On a table with the eight columns, saving
  a record with a non-empty \<open>student_id\<close> a second time leaves the table that the first
  save made.
\<close>

theorem upsert_idempotent:
  assumes "has_cols t" and "student_id rec \<noteq> []"
  shows "\<exists>t1. upsert t rec = Inr t1 \<and> upsert t1 rec = Inr t1"
  using assms by (rule upsert_twice)

text \<open>
  The same record saved twice into an empty table.
\<close>

theorem upsert_idempotent_witness:
  "has_cols \<lparr> columns = cols, rows = [] \<rparr> \<and> student_id ex_record \<noteq> [] \<and>
   upsert \<lparr> columns = cols, rows = [] \<rparr> ex_record =
     Inr \<lparr> columns = cols, rows = [ex_row (Num 30) (Str []) 30] \<rparr> \<and>
   upsert \<lparr> columns = cols, rows = [ex_row (Num 30) (Str []) 30] \<rparr> ex_record =
     Inr \<lparr> columns = cols, rows = [ex_row (Num 30) (Str []) 30] \<rparr>"
proof -
  have a: "has_cols \<lparr> columns = cols, rows = [] \<rparr>" by code_simp
  have b: "student_id ex_record \<noteq> []" by (simp add: ex_record_def)
  have c: "upsert \<lparr> columns = cols, rows = [] \<rparr> ex_record =
     Inr \<lparr> columns = cols, rows = [ex_row (Num 30) (Str []) 30] \<rparr>" by code_simp
  from upsert_idempotent [OF a b] c
  have "upsert \<lparr> columns = cols, rows = [ex_row (Num 30) (Str []) 30] \<rparr> ex_record =
     Inr \<lparr> columns = cols, rows = [ex_row (Num 30) (Str []) 30] \<rparr>"
    by auto
  with a b c show ?thesis by blast
qed

text \<open>
  Claim C2 as stated, for every record: a record whose \<open>student_id\<close> is empty is
  appended by each save, so the second save leaves two rows where the first left one.
\<close>

theorem upsert_twice_empty_id_counterexample:
  "upsert \<lparr> columns = cols, rows = [] \<rparr> (ex_record \<lparr> student_id := [] \<rparr>) =
     Inr \<lparr> columns = cols, rows = [(ex_row (Num 30) (Str []) 30)[2 := (''student_id'', Str [])]] \<rparr> \<and>
   upsert \<lparr> columns = cols, rows = [(ex_row (Num 30) (Str []) 30)[2 := (''student_id'', Str [])]] \<rparr>
       (ex_record \<lparr> student_id := [] \<rparr>) =
     Inr \<lparr> columns = cols, rows = [(ex_row (Num 30) (Str []) 30)[2 := (''student_id'', Str [])],
                                   (ex_row (Num 30) (Str []) 30)[2 := (''student_id'', Str [])]] \<rparr> \<and>
   \<lparr> columns = cols, rows = [(ex_row (Num 30) (Str []) 30)[2 := (''student_id'', Str [])],
                            (ex_row (Num 30) (Str []) 30)[2 := (''student_id'', Str [])]] \<rparr>
     \<noteq> \<lparr> columns = cols, rows = [(ex_row (Num 30) (Str []) 30)[2 := (''student_id'', Str [])]] \<rparr>"
proof -
  have a: "upsert \<lparr> columns = cols, rows = [] \<rparr> (ex_record \<lparr> student_id := [] \<rparr>) =
     Inr \<lparr> columns = cols, rows = [(ex_row (Num 30) (Str []) 30)[2 := (''student_id'', Str [])]] \<rparr>"
    by code_simp
  have b: "upsert \<lparr> columns = cols, rows = [(ex_row (Num 30) (Str []) 30)[2 := (''student_id'', Str [])]] \<rparr>
       (ex_record \<lparr> student_id := [] \<rparr>) =
     Inr \<lparr> columns = cols, rows = [(ex_row (Num 30) (Str []) 30)[2 := (''student_id'', Str [])],
                                   (ex_row (Num 30) (Str []) 30)[2 := (''student_id'', Str [])]] \<rparr>"
    by code_simp
  show ?thesis by (simp add: a b)
qed









text \<open>
  Claim C8 against the exporter, on a row that was saved in an earlier session. The file
  \<open>A--12.pdf\<close> gives a record with no name, and it is saved with a first score only.
  Exported in the session that saved it, where the absent name and second score are empty
  strings, its row is filled as the claim says: the alert fill on the row, the missing
  fill on the \<open>q2_score\<close> cell. Once the table has been read back from the CSV file, the
  two fields are \<open>nan\<close>; the exporter tests \<open>str(value or "").strip() == ""\<close>, which
  is false of \<open>nan\<close>, and the same row is exported with no fill at all, although its name
  and its second score are missing. \<open>_populate_existing\<close> reads the same row with
  \<open>pd.isna\<close> and takes its \<open>nan\<close> fields as empty.
\<close>

theorem export_reloaded_row_not_highlighted:
  "parse_filename_meta ''A--12.pdf'' = \<lparr> class_time = ''A'', name = [], student_id = ''12'' \<rparr> \<and>
   upsert (load_existing_csv None) ex_saved_record = Inr ex_saved_table \<and>
   snd (export_gradebook ex_saved_table) =
     Inr [\<lparr> section_of = Section ''A'', header = export_cols,
            data_rows =
              [([Str ''A'', Str [], Str ''12'', Num 40, Str [], Num 40, Str [], Str ''A--12.pdf''],
                [FILL_ALERT, FILL_ALERT, FILL_ALERT, FILL_ALERT, FILL_MISSING, FILL_ALERT,
                 FILL_ALERT, FILL_ALERT])] \<rparr>] \<and>
   snd (export_gradebook (load_existing_csv (Some ex_reloaded_table))) =
     Inr [\<lparr> section_of = Section ''A'', header = export_cols,
            data_rows =
              [([Str ''A'', NaN, Num 12, Num 40, NaN, Num 40, NaN, Str ''A--12.pdf''],
                [NoFill, NoFill, NoFill, NoFill, NoFill, NoFill, NoFill, NoFill])] \<rparr>] \<and>
   map (field_text (hd (rows ex_reloaded_table))) [''q1_score'', ''q2_score'', ''comment''] =
     [''40'', [], []]"
proof (intro conjI)
  show "parse_filename_meta ''A--12.pdf'' =
      \<lparr> class_time = ''A'', name = [], student_id = ''12'' \<rparr>"
    by code_simp
  show "upsert (load_existing_csv None) ex_saved_record = Inr ex_saved_table"
    by code_simp
  show "snd (export_gradebook ex_saved_table) =
     Inr [\<lparr> section_of = Section ''A'', header = export_cols,
            data_rows =
              [([Str ''A'', Str [], Str ''12'', Num 40, Str [], Num 40, Str [], Str ''A--12.pdf''],
                [FILL_ALERT, FILL_ALERT, FILL_ALERT, FILL_ALERT, FILL_MISSING, FILL_ALERT,
                 FILL_ALERT, FILL_ALERT])] \<rparr>]"
    by code_simp
  show "snd (export_gradebook (load_existing_csv (Some ex_reloaded_table))) =
     Inr [\<lparr> section_of = Section ''A'', header = export_cols,
            data_rows =
              [([Str ''A'', NaN, Num 12, Num 40, NaN, Num 40, NaN, Str ''A--12.pdf''],
                [NoFill, NoFill, NoFill, NoFill, NoFill, NoFill, NoFill, NoFill])] \<rparr>]"
    by code_simp
  show "map (field_text (hd (rows ex_reloaded_table))) [''q1_score'', ''q2_score'', ''comment''] =
     [''40'', [], []]"
    by code_simp
qed












end
